theory Spec2Isabelle
  imports Complex_Main
begin

section \<open>The carousel controller \<open>DMCCarousel\<close>\<close>

text \<open>
  The class \<open>DMCCarousel\<close> of the carousel script is embedded as a record of its
  instance fields together with the parts of the page it reads and writes, and every
  method is a function from state to state.

  JavaScript numbers are modelled as exact rationals (\<^typ>\<open>rat\<close>); \<open>Math.max\<close> and
  \<open>Math.min\<close> are \<^const>\<open>max\<close> and \<^const>\<open>min\<close>.  Rounding errors of binary
  floating point and the values \<open>NaN\<close> and \<open>\<plusminus>Infinity\<close> are outside the model;
  statements whose JavaScript evaluation divides by zero carry the hypothesis that the
  divisor is not zero.  Where the code rounds a floating-point quotient to a whole
  number of cards (the release of a drag or of a swipe), a rounding error of the
  quotient can change the result, so the model does not compute that number: it is an
  argument of the handler.
\<close>

subsection \<open>Options\<close>

text \<open>
  A breakpoint override is a partial configuration: a key that is absent from the
  object literal is \<open>None\<close>.
\<close>

record override =
  ov_slidesPerView :: "rat option"
  ov_gap :: "rat option"
  ov_autoplay :: "bool option"
  ov_autoplaySpeed :: "rat option"
  ov_infinite :: "bool option"

text \<open>
  The \<open>options\<close> argument of the constructor is a partial configuration too, which
  may also carry the \<open>breakpoints\<close> object.  The object is an association list from
  max-width keys to overrides.
\<close>

record user_options = override +
  ov_breakpoints :: "(rat \<times> override) list option"

record carousel_options =
  slidesPerView :: rat
  gap :: rat
  autoplay :: bool
  autoplaySpeed :: rat
  infinite :: bool
  breakpoints :: "(rat \<times> override) list"

definition default_options :: carousel_options where
  "default_options =
     \<lparr>slidesPerView = 4, gap = 24, autoplay = False, autoplaySpeed = 5000,
      infinite = False, breakpoints = []\<rparr>"

text \<open>The object spread \<open>{ ...options, ...ov }\<close>: the keys present in \<open>ov\<close> win.\<close>

definition spread :: "carousel_options \<Rightarrow> 'a override_scheme \<Rightarrow> carousel_options" where
  "spread opts ov =
     opts\<lparr>slidesPerView := (case ov_slidesPerView ov of None \<Rightarrow> slidesPerView opts | Some v \<Rightarrow> v),
          gap := (case ov_gap ov of None \<Rightarrow> gap opts | Some v \<Rightarrow> v),
          autoplay := (case ov_autoplay ov of None \<Rightarrow> autoplay opts | Some v \<Rightarrow> v),
          autoplaySpeed := (case ov_autoplaySpeed ov of None \<Rightarrow> autoplaySpeed opts | Some v \<Rightarrow> v),
          infinite := (case ov_infinite ov of None \<Rightarrow> infinite opts | Some v \<Rightarrow> v)\<rparr>"

definition spread_user :: "carousel_options \<Rightarrow> user_options \<Rightarrow> carousel_options" where
  "spread_user opts u =
     (spread opts u)\<lparr>breakpoints :=
        (case ov_breakpoints u of None \<Rightarrow> breakpoints opts | Some b \<Rightarrow> b)\<rparr>"

subsection \<open>State\<close>

datatype css_width = NoWidth | Percent rat

datatype css_transition = NoTransition | TransitionNone | TransformEase

datatype css_cursor = NoCursor | Grab | Grabbing

text \<open>
  The instance fields come first, under the names of the source.  Then the page:
  \<open>offsetWidth\<close> is \<open>container.offsetWidth\<close>, \<open>innerWidth\<close> is
  \<open>window.innerWidth\<close>, \<open>slideCount\<close> is \<open>slides.length\<close>; \<open>prevBtn\<close> and
  \<open>nextBtn\<close> hold the \<open>disabled\<close> flag of a button that exists, \<open>progressBar\<close>
  the \<open>style.width\<close> of a progress element that exists.  \<open>trackTransform\<close> is the
  argument of \<open>translateX\<close> in \<open>track.style.transform\<close>, in pixels.  Then the timers:
  \<open>intervals\<close> are the handles of the running \<open>setInterval\<close> timers of the instance,
  \<open>timerSeq\<close> the last handle issued (handles are positive and never reused),
  \<open>animationTimeouts\<close> and \<open>dragResetTimeouts\<close> count the pending \<open>setTimeout\<close>
  callbacks of \<open>goTo\<close> and of the drag handlers.
\<close>

record carousel =
  options :: carousel_options
  currentIndex :: rat
  maxIndex :: rat
  slideWidth :: rat
  autoplayInterval :: "nat option"
  isAnimating :: bool
  touchStartX :: rat
  touchEndX :: rat
  isDragging :: bool
  dragStartX :: rat
  dragMoved :: bool
  offsetWidth :: rat
  innerWidth :: rat
  slideCount :: nat
  prevBtn :: "bool option"
  nextBtn :: "bool option"
  progressBar :: "css_width option"
  slideStyleWidth :: rat
  trackGap :: rat
  trackTransform :: "rat option"
  trackTransition :: css_transition
  trackCursor :: css_cursor
  intervals :: "nat list"
  timerSeq :: nat
  animationTimeouts :: nat
  dragResetTimeouts :: nat

subsection \<open>Responsive resolution and dimensions\<close>

text \<open>
  \<open>getResponsiveOptions\<close>: the keys of \<open>breakpoints\<close>, sorted in descending order
  (\<open>sort((a, b) => b - a)\<close>), are visited in turn; a key that is at least the window
  width spreads its override over the options accumulated so far.  Spreading
  \<open>undefined\<close> (a key without entry) changes nothing.
\<close>

definition sortedBreakpoints :: "carousel_options \<Rightarrow> rat list" where
  "sortedBreakpoints opts = sort_key (\<lambda>k. - k) (map fst (breakpoints opts))"

definition responsive_step :: "rat \<Rightarrow> carousel_options \<Rightarrow> rat \<Rightarrow> carousel_options \<Rightarrow> carousel_options" where
  "responsive_step windowWidth base breakpoint opts =
     (if windowWidth \<le> breakpoint
      then (case map_of (breakpoints base) breakpoint of
              None \<Rightarrow> opts
            | Some ov \<Rightarrow> spread opts ov)
      else opts)"

definition responsiveOptions :: "rat \<Rightarrow> carousel_options \<Rightarrow> carousel_options" where
  "responsiveOptions windowWidth base =
     fold (responsive_step windowWidth base) (sortedBreakpoints base) base"

definition getResponsiveOptions :: "carousel \<Rightarrow> carousel_options" where
  "getResponsiveOptions s = responsiveOptions (innerWidth s) (options s)"

definition calculateDimensions :: "carousel \<Rightarrow> carousel" where
  "calculateDimensions s =
     (let containerWidth = offsetWidth s;
          currentOptions = getResponsiveOptions s;
          spv = slidesPerView currentOptions;
          g = gap currentOptions;
          w = (containerWidth - g * (spv - 1)) / spv
      in s\<lparr>slideWidth := w,
            maxIndex := max 0 (of_nat (slideCount s) - spv),
            slideStyleWidth := w,
            trackGap := g\<rparr>)"

subsection \<open>Controls and progress\<close>

definition updateControls :: "carousel \<Rightarrow> carousel" where
  "updateControls s =
     s\<lparr>prevBtn := map_option (\<lambda>_. \<not> infinite (options s) \<and> currentIndex s = 0) (prevBtn s),
       nextBtn := map_option (\<lambda>_. \<not> infinite (options s) \<and> currentIndex s \<ge> maxIndex s) (nextBtn s)\<rparr>"

definition progress :: "carousel \<Rightarrow> rat" where
  "progress s =
     (if maxIndex s > 0 then ((currentIndex s + 1) / (maxIndex s + 1)) * 100 else 100)"

definition updateProgress :: "carousel \<Rightarrow> carousel" where
  "updateProgress s =
     (case progressBar s of
        None \<Rightarrow> s
      | Some _ \<Rightarrow> s\<lparr>progressBar := Some (Percent (progress s))\<rparr>)"

subsection \<open>Navigation\<close>

text \<open>
  \<open>goTo(index, force = false)\<close>.  The style string it writes is \<open>translateX(-\<close>,
  the number \<open>translateX\<close> and \<open>px)\<close>.  The \<open>setTimeout\<close> at its end is one more
  pending callback; \<open>animationTimeout\<close> is the body of that callback.
\<close>

definition goTo :: "rat \<Rightarrow> bool \<Rightarrow> carousel \<Rightarrow> carousel" where
  "goTo index force s =
     (if isAnimating s \<and> \<not> force then s
      else if \<not> force \<and> index = currentIndex s then s
      else
        (let s1 = s\<lparr>isAnimating := True,
                    currentIndex := max 0 (min index (maxIndex s))\<rparr>;
             currentOptions = getResponsiveOptions s1;
             translateX = currentIndex s1 * (slideWidth s1 + gap currentOptions);
             s2 = (if \<not> isDragging s1 then s1\<lparr>trackTransition := TransformEase\<rparr> else s1);
             s3 = s2\<lparr>trackTransform := Some (- translateX)\<rparr>;
             s4 = updateProgress (updateControls s3)
         in s4\<lparr>animationTimeouts := Suc (animationTimeouts s4)\<rparr>))"

definition animationTimeout :: "carousel \<Rightarrow> carousel" where
  "animationTimeout s = s\<lparr>isAnimating := False\<rparr>"

definition prev :: "carousel \<Rightarrow> carousel" where
  "prev s =
     (if isAnimating s then s
      else if currentIndex s > 0 then goTo (currentIndex s - 1) False s
      else if infinite (options s) then goTo (maxIndex s) False s
      else s)"

definition "next" :: "carousel \<Rightarrow> carousel" where
  "next s =
     (if isAnimating s then s
      else if currentIndex s < maxIndex s then goTo (currentIndex s + 1) False s
      else if infinite (options s) then goTo 0 False s
      else s)"

subsection \<open>Autoplay\<close>

text \<open>
  \<open>if (this.autoplayInterval)\<close> tests truthiness: \<open>null\<close> and the number \<open>0\<close> are
  falsy.  \<open>setInterval\<close> returns a fresh positive handle and registers the timer;
  \<open>clearInterval\<close> removes it.  \<open>autoplayTick\<close> is the callback of the interval.
\<close>

definition truthy :: "nat option \<Rightarrow> bool" where
  "truthy h = (case h of None \<Rightarrow> False | Some n \<Rightarrow> n \<noteq> 0)"

definition startAutoplay :: "carousel \<Rightarrow> carousel" where
  "startAutoplay s =
     (if truthy (autoplayInterval s) then s
      else
        (let h = Suc (timerSeq s)
         in s\<lparr>autoplayInterval := Some h, intervals := h # intervals s, timerSeq := h\<rparr>))"

definition autoplayTick :: "carousel \<Rightarrow> carousel" where
  "autoplayTick s =
     (if currentIndex s \<ge> maxIndex s
      then (if infinite (options s) then goTo 0 False s else s)
      else next s)"

definition stopAutoplay :: "carousel \<Rightarrow> carousel" where
  "stopAutoplay s =
     (case autoplayInterval s of
        None \<Rightarrow> s
      | Some h \<Rightarrow>
          if h \<noteq> 0
          then s\<lparr>intervals := removeAll h (intervals s), autoplayInterval := None\<rparr>
          else s)"

definition destroy :: "carousel \<Rightarrow> carousel" where
  "destroy s = stopAutoplay s"

subsection \<open>Mouse drag and touch handlers\<close>

text \<open>The argument of \<open>handleMouseDown\<close> and \<open>handleMouseMove\<close> is \<open>e.pageX\<close>.\<close>

definition handleMouseDown :: "rat \<Rightarrow> carousel \<Rightarrow> carousel" where
  "handleMouseDown pageX s =
     s\<lparr>isDragging := True, dragMoved := False, dragStartX := pageX,
       trackCursor := Grabbing, trackTransition := TransitionNone\<rparr>"

definition handleMouseMove :: "rat \<Rightarrow> carousel \<Rightarrow> carousel" where
  "handleMouseMove pageX s =
     (if \<not> isDragging s then s
      else
        (let currentX = pageX;
             diff = currentX - dragStartX s;
             s1 = (if \<bar>diff\<bar> > 5 then s\<lparr>dragMoved := True\<rparr> else s);
             currentOptions = getResponsiveOptions s1;
             cardWidth = slideWidth s1 + gap currentOptions;
             baseTranslate = - currentIndex s1 * cardWidth;
             newTranslate = baseTranslate + diff
         in s1\<lparr>trackTransform := Some newTranslate\<rparr>))"

text \<open>
  \<open>handleMouseUp\<close> computes \<open>diff = e.pageX - dragStartX\<close>,
  \<open>cardWidth = slideWidth + gap\<close> and \<open>cardsMoved = Math.round(diff / cardWidth)\<close> in
  binary floating point, where a quotient within a rounding error of a half-card tie
  falls to either side of it.  That computation is not modelled: the argument
  \<open>cardsMoved\<close> is the whole number the engine arrives at, so the model covers
  every finite outcome.  An infinite outcome (a drag over cards of zero width) is
  clamped like any finite one beyond the range of the indices; the outcome \<open>NaN\<close>
  (no movement over cards of zero width) is outside the model.
\<close>

definition handleMouseUp :: "int \<Rightarrow> carousel \<Rightarrow> carousel" where
  "handleMouseUp cardsMoved s =
     (if \<not> isDragging s then s
      else
        (let s1 = s\<lparr>isDragging := False, trackCursor := Grab, trackTransition := TransformEase\<rparr>;
             newIndex = currentIndex s1 - of_int cardsMoved;
             s2 = goTo (max 0 (min newIndex (maxIndex s1))) True s1
         in if dragMoved s2 then s2\<lparr>dragResetTimeouts := Suc (dragResetTimeouts s2)\<rparr> else s2))"

definition dragResetTimeout :: "carousel \<Rightarrow> carousel" where
  "dragResetTimeout s = s\<lparr>dragMoved := False\<rparr>"

text \<open>The argument of \<open>handleTouchStart\<close> and \<open>handleTouchMove\<close> is \<open>e.touches[0].pageX\<close>.\<close>

definition handleTouchStart :: "rat \<Rightarrow> carousel \<Rightarrow> carousel" where
  "handleTouchStart pageX s =
     s\<lparr>isDragging := True, dragMoved := False, touchStartX := pageX,
       trackTransition := TransitionNone\<rparr>"

definition handleTouchMove :: "rat \<Rightarrow> carousel \<Rightarrow> carousel" where
  "handleTouchMove pageX s =
     (if \<not> isDragging s then s
      else
        (let currentX = pageX;
             diff = currentX - touchStartX s;
             s1 = (if \<bar>diff\<bar> > 5 then s\<lparr>dragMoved := True\<rparr> else s);
             currentOptions = getResponsiveOptions s1;
             cardWidth = slideWidth s1 + gap currentOptions;
             baseTranslate = - currentIndex s1 * cardWidth;
             newTranslate = baseTranslate + diff
         in s1\<lparr>trackTransform := Some newTranslate\<rparr>))"

text \<open>
  \<open>handleTouchEnd\<close> reads the translation back from the style string with a regular
  expression and \<open>parseFloat\<close>, and computes
  \<open>newIndex = Math.round(-currentTranslate / cardWidth)\<close> in binary floating point.
  Neither the decimal rendering of numbers nor that computation is modelled: the
  argument \<open>newIndex\<close> is the whole number the engine arrives at, with the same
  coverage as for \<open>handleMouseUp\<close>.
\<close>

definition handleTouchEnd :: "int \<Rightarrow> carousel \<Rightarrow> carousel" where
  "handleTouchEnd newIndex s =
     (if \<not> isDragging s then s
      else
        (let s1 = s\<lparr>isDragging := False, trackTransition := TransformEase\<rparr>;
             s2 = goTo (max 0 (min (of_int newIndex) (maxIndex s1))) True s1
         in if dragMoved s2 then s2\<lparr>dragResetTimeouts := Suc (dragResetTimeouts s2)\<rparr> else s2))"

subsection \<open>Construction\<close>

text \<open>What the constructor finds on the page.\<close>

record page =
  pg_container :: bool
  pg_track :: bool
  pg_slides :: nat
  pg_prevBtn :: bool
  pg_nextBtn :: bool
  pg_progressBar :: bool
  pg_offsetWidth :: rat
  pg_innerWidth :: rat

text \<open>
  \<open>bindEvents\<close> registers the listeners (they are the events below) and styles the
  track.
\<close>

definition bindEvents :: "carousel \<Rightarrow> carousel" where
  "bindEvents s = s\<lparr>trackCursor := Grab\<rparr>"

definition init :: "carousel \<Rightarrow> carousel" where
  "init s =
     (let s1 = calculateDimensions s;
          s2 = bindEvents s1;
          s3 = updateControls s2;
          s4 = updateProgress s3
      in if autoplay (options s4) then startAutoplay s4 else s4)"

text \<open>
  The constructor returns early, leaving an instance without fields (\<open>None\<close>), when the
  container, the track or the slides are missing.  Otherwise it assigns the fields
  (\<open>fields\<close>) and calls \<open>init\<close>.  \<open>maxIndex\<close>, \<open>slideWidth\<close> and the styles are
  unset until \<open>init\<close> calls \<open>calculateDimensions\<close>, which writes them before anything
  reads them; the record holds \<open>0\<close> there until then.
\<close>

definition fields :: "page \<Rightarrow> user_options \<Rightarrow> carousel" where
  "fields pg opts =
     \<lparr>options = spread_user default_options opts,
      currentIndex = 0,
      maxIndex = 0,
      slideWidth = 0,
      autoplayInterval = None,
      isAnimating = False,
      touchStartX = 0,
      touchEndX = 0,
      isDragging = False,
      dragStartX = 0,
      dragMoved = False,
      offsetWidth = pg_offsetWidth pg,
      innerWidth = pg_innerWidth pg,
      slideCount = pg_slides pg,
      prevBtn = (if pg_prevBtn pg then Some False else None),
      nextBtn = (if pg_nextBtn pg then Some False else None),
      progressBar = (if pg_progressBar pg then Some NoWidth else None),
      slideStyleWidth = 0,
      trackGap = 0,
      trackTransform = None,
      trackTransition = NoTransition,
      trackCursor = NoCursor,
      intervals = [],
      timerSeq = 0,
      animationTimeouts = 0,
      dragResetTimeouts = 0\<rparr>"

definition constructor :: "page \<Rightarrow> user_options \<Rightarrow> carousel option" where
  "constructor pg opts =
     (if \<not> pg_container pg then None
      else if \<not> pg_track pg \<or> pg_slides pg = 0 then None
      else Some (init (fields pg opts)))"

subsection \<open>Events\<close>

text \<open>
  Everything that can happen to an instance: the public methods, the listeners
  registered by \<open>bindEvents\<close> and the timer callbacks.  \<open>Resize w c\<close> is the debounced
  resize callback running with window width \<open>w\<close> and container width \<open>c\<close>;
  \<open>MouseUp k\<close> and \<open>TouchEnd k\<close> are releases for which the engine computes the
  whole number \<open>k\<close>.  A
  disabled button fires no click; the hover listeners exist only with \<open>autoplay\<close>.
  A timer callback runs only while its timer is pending, and a timeout is spent by
  running.
\<close>

datatype event =
    Prev | Next | GoTo rat bool
  | StartAutoplay | StopAutoplay | Destroy
  | ClickPrev | ClickNext
  | Resize rat rat
  | MouseDown rat | MouseMove rat | MouseUp int
  | TouchStart rat | TouchMove rat | TouchEnd int
  | MouseEnter | MouseLeave
  | AnimationTimeout | DragResetTimeout | AutoplayTick

fun fire :: "event \<Rightarrow> carousel \<Rightarrow> carousel" where
  "fire Prev s = prev s"
| "fire Next s = next s"
| "fire (GoTo index force) s = goTo index force s"
| "fire StartAutoplay s = startAutoplay s"
| "fire StopAutoplay s = stopAutoplay s"
| "fire Destroy s = destroy s"
| "fire ClickPrev s = (if prevBtn s = Some False then prev s else s)"
| "fire ClickNext s = (if nextBtn s = Some False then next s else s)"
| "fire (Resize w c) s =
     (let s1 = calculateDimensions (s\<lparr>innerWidth := w, offsetWidth := c\<rparr>)
      in goTo (min (currentIndex s1) (maxIndex s1)) False s1)"
| "fire (MouseDown x) s = handleMouseDown x s"
| "fire (MouseMove x) s = handleMouseMove x s"
| "fire (MouseUp k) s = handleMouseUp k s"
| "fire (TouchStart x) s = handleTouchStart x s"
| "fire (TouchMove x) s = handleTouchMove x s"
| "fire (TouchEnd k) s = handleTouchEnd k s"
| "fire MouseEnter s = (if autoplay (options s) then stopAutoplay s else s)"
| "fire MouseLeave s = (if autoplay (options s) then startAutoplay s else s)"
| "fire AnimationTimeout s =
     (if animationTimeouts s = 0 then s
      else animationTimeout (s\<lparr>animationTimeouts := animationTimeouts s - 1\<rparr>))"
| "fire DragResetTimeout s =
     (if dragResetTimeouts s = 0 then s
      else dragResetTimeout (s\<lparr>dragResetTimeouts := dragResetTimeouts s - 1\<rparr>))"
| "fire AutoplayTick s = (if intervals s = [] then s else autoplayTick s)"

text \<open>A run: the events of a list, in order.\<close>

definition run :: "event list \<Rightarrow> carousel \<Rightarrow> carousel" where
  "run es s = fold fire es s"

text \<open>The resize callback is the only event that recalculates the dimensions.\<close>

fun is_resize :: "event \<Rightarrow> bool" where
  "is_resize (Resize w c) = True"
| "is_resize e = False"

text \<open>
  The timers of an instance are consistent when the running intervals are exactly the
  one whose handle \<open>autoplayInterval\<close> holds, or none when it holds \<open>null\<close>.
\<close>

definition timers_ok :: "carousel \<Rightarrow> bool" where
  "timers_ok s =
     (case autoplayInterval s of
        None \<Rightarrow> intervals s = []
      | Some h \<Rightarrow> h \<noteq> 0 \<and> intervals s = [h])"

text \<open>
  The progress element shows the progress of the state when its width is the
  percentage \<open>updateProgress\<close> would write.
\<close>

definition progress_shown :: "carousel \<Rightarrow> bool" where
  "progress_shown s =
     (case progressBar s of None \<Rightarrow> True | Some w \<Rightarrow> w = Percent (progress s))"

subsection \<open>Responsive resolution, as specified\<close>

text \<open>
  The specification's description of the effective configuration, to be compared with
  \<open>responsiveOptions\<close>: the overrides whose max-width key is at least the width, in
  descending key order, are laid over the base configuration one after the other.
\<close>

definition matching_overrides :: "rat \<Rightarrow> carousel_options \<Rightarrow> (rat \<times> override) list" where
  "matching_overrides width base =
     filter (\<lambda>(k, ov). width \<le> k) (sort_key (\<lambda>(k, ov). - k) (breakpoints base))"

definition overlay_spec :: "rat \<Rightarrow> carousel_options \<Rightarrow> carousel_options" where
  "overlay_spec width base = foldl spread base (map snd (matching_overrides width base))"

subsection \<open>Example instances\<close>

text \<open>
  A page with ten slides, both buttons and a progress bar, in a window of 1400 pixels,
  and the instance \<open>new DMCCarousel(container)\<close> on it: four slides per view, so
  \<open>maxIndex\<close> is \<open>6\<close>.  \<open>carousel10_infinite\<close> is the same with \<open>infinite: true\<close>.
\<close>

definition page10 :: page where
  "page10 =
     \<lparr>pg_container = True, pg_track = True, pg_slides = 10, pg_prevBtn = True,
      pg_nextBtn = True, pg_progressBar = True, pg_offsetWidth = 1272,
      pg_innerWidth = 1400\<rparr>"

definition no_options :: user_options where
  "no_options =
     \<lparr>ov_slidesPerView = None, ov_gap = None, ov_autoplay = None,
      ov_autoplaySpeed = None, ov_infinite = None, ov_breakpoints = None\<rparr>"

definition carousel10 :: carousel where
  "carousel10 = init (fields page10 no_options)"

definition carousel10_infinite :: carousel where
  "carousel10_infinite = init (fields page10 (no_options\<lparr>ov_infinite := Some True\<rparr>))"

text \<open>
  The configuration of the breakpoint example: four slides per view, three up to a
  width of 1200, and \<open>1.2\<close> (that is \<open>6/5\<close>) with a gap of 16 up to a width of 600;
  and the instance with these options on the ten-slide page in a window of 500 pixels.
\<close>

definition example_options :: user_options where
  "example_options =
     \<lparr>ov_slidesPerView = Some 4, ov_gap = None, ov_autoplay = None,
      ov_autoplaySpeed = None, ov_infinite = None,
      ov_breakpoints = Some
        [(1200, \<lparr>ov_slidesPerView = Some 3, ov_gap = None, ov_autoplay = None,
                  ov_autoplaySpeed = None, ov_infinite = None\<rparr>),
         (600, \<lparr>ov_slidesPerView = Some (6 / 5), ov_gap = Some 16, ov_autoplay = None,
                 ov_autoplaySpeed = None, ov_infinite = None\<rparr>)]\<rparr>"

definition page10_mobile :: page where
  "page10_mobile = page10\<lparr>pg_offsetWidth := 480, pg_innerWidth := 500\<rparr>"

definition carousel10_mobile :: carousel where
  "carousel10_mobile = init (fields page10_mobile example_options)"

text \<open>The instance with the example configuration in the window of 1400 pixels.\<close>

definition carousel10_example :: carousel where
  "carousel10_example = init (fields page10 example_options)"

text \<open>
  The ten-slide page with \<open>autoplay: true\<close>, and a page with three slides only, fewer
  than the four per view.
\<close>

definition autoplay_options :: user_options where
  "autoplay_options = no_options\<lparr>ov_autoplay := Some True\<rparr>"

definition carousel10_autoplay :: carousel where
  "carousel10_autoplay = init (fields page10 autoplay_options)"

definition page3 :: page where
  "page3 = page10\<lparr>pg_slides := 3\<rparr>"

definition carousel3 :: carousel where
  "carousel3 = init (fields page3 no_options)"

section \<open>Properties\<close>

subsection \<open>What the display updates leave alone\<close>

lemma updateControls_fields [simp]:
  "currentIndex (updateControls s) = currentIndex s"
  "maxIndex (updateControls s) = maxIndex s"
  "slideWidth (updateControls s) = slideWidth s"
  "isAnimating (updateControls s) = isAnimating s"
  "isDragging (updateControls s) = isDragging s"
  "dragMoved (updateControls s) = dragMoved s"
  "options (updateControls s) = options s"
  "innerWidth (updateControls s) = innerWidth s"
  "slideCount (updateControls s) = slideCount s"
  "autoplayInterval (updateControls s) = autoplayInterval s"
  "intervals (updateControls s) = intervals s"
  "timerSeq (updateControls s) = timerSeq s"
  "animationTimeouts (updateControls s) = animationTimeouts s"
  "progressBar (updateControls s) = progressBar s"
  by (simp_all add: updateControls_def)

lemma updateProgress_fields [simp]:
  "currentIndex (updateProgress s) = currentIndex s"
  "maxIndex (updateProgress s) = maxIndex s"
  "slideWidth (updateProgress s) = slideWidth s"
  "isAnimating (updateProgress s) = isAnimating s"
  "isDragging (updateProgress s) = isDragging s"
  "dragMoved (updateProgress s) = dragMoved s"
  "options (updateProgress s) = options s"
  "innerWidth (updateProgress s) = innerWidth s"
  "slideCount (updateProgress s) = slideCount s"
  "autoplayInterval (updateProgress s) = autoplayInterval s"
  "intervals (updateProgress s) = intervals s"
  "timerSeq (updateProgress s) = timerSeq s"
  "animationTimeouts (updateProgress s) = animationTimeouts s"
  by (simp_all add: updateProgress_def split: option.splits)

subsection \<open>What \<open>goTo\<close> changes\<close>

lemma goTo_currentIndex:
  "currentIndex (goTo index force s) =
     (if (isAnimating s \<and> \<not> force) \<or> (\<not> force \<and> index = currentIndex s)
      then currentIndex s
      else max 0 (min index (maxIndex s)))"
  by (simp add: goTo_def Let_def)


lemma goTo_animationTimeouts:
  "animationTimeouts (goTo index force s) =
     (if (isAnimating s \<and> \<not> force) \<or> (\<not> force \<and> index = currentIndex s)
      then animationTimeouts s
      else Suc (animationTimeouts s))"
  by (simp add: goTo_def Let_def)

lemma goTo_fields [simp]:
  "maxIndex (goTo index force s) = maxIndex s"
  "slideWidth (goTo index force s) = slideWidth s"
  "options (goTo index force s) = options s"
  "innerWidth (goTo index force s) = innerWidth s"
  "slideCount (goTo index force s) = slideCount s"
  "isDragging (goTo index force s) = isDragging s"
  "dragMoved (goTo index force s) = dragMoved s"
  "autoplayInterval (goTo index force s) = autoplayInterval s"
  "intervals (goTo index force s) = intervals s"
  "timerSeq (goTo index force s) = timerSeq s"
  by (simp_all add: goTo_def Let_def)

lemma prev_next_fields [simp]:
  "maxIndex (prev s) = maxIndex s"
  "maxIndex (next s) = maxIndex s"
  "autoplayInterval (prev s) = autoplayInterval s"
  "autoplayInterval (next s) = autoplayInterval s"
  "intervals (prev s) = intervals s"
  "intervals (next s) = intervals s"
  by (simp_all add: prev_def next_def)

lemma constructor_page10: "constructor page10 no_options = Some carousel10"
  by (simp add: constructor_def carousel10_def page10_def)

lemma constructor_page10_infinite:
  "constructor page10 (no_options\<lparr>ov_infinite := Some True\<rparr>) = Some carousel10_infinite"
  by (simp add: constructor_def carousel10_infinite_def page10_def)

lemma carousel10_eq:
  "carousel10 =
     \<lparr>options = default_options,
      currentIndex = 0, maxIndex = 6, slideWidth = 300,
      autoplayInterval = None, isAnimating = False, touchStartX = 0,
      touchEndX = 0, isDragging = False, dragStartX = 0, dragMoved = False,
      offsetWidth = 1272, innerWidth = 1400, slideCount = 10,
      prevBtn = Some True, nextBtn = Some False,
      progressBar = Some (Percent (100 / 7)), slideStyleWidth = 300,
      trackGap = 24, trackTransform = None, trackTransition = NoTransition,
      trackCursor = Grab, intervals = [], timerSeq = 0,
      animationTimeouts = 0, dragResetTimeouts = 0\<rparr>"
  by (simp add: carousel10_def init_def fields_def calculateDimensions_def
      getResponsiveOptions_def responsiveOptions_def sortedBreakpoints_def
      bindEvents_def updateControls_def updateProgress_def progress_def
      spread_user_def spread_def default_options_def page10_def no_options_def Let_def)

lemma carousel10_infinite_eq:
  "carousel10_infinite = carousel10\<lparr>options := default_options\<lparr>infinite := True\<rparr>,
     prevBtn := Some False\<rparr>"
  by (simp add: carousel10_eq carousel10_infinite_def init_def fields_def calculateDimensions_def
      getResponsiveOptions_def responsiveOptions_def sortedBreakpoints_def
      bindEvents_def updateControls_def updateProgress_def progress_def
      spread_user_def spread_def default_options_def page10_def no_options_def Let_def)

lemma carousel10_fields:
  "currentIndex carousel10 = 0"
  "maxIndex carousel10 = 6"
  "isAnimating carousel10 = False"
  "animationTimeouts carousel10 = 0"
  "infinite (options carousel10) = False"
  "slideCount carousel10 = 10"
  "progressBar carousel10 = Some (Percent (100 / 7))"
  "autoplayInterval carousel10 = None"
  "intervals carousel10 = []"
  by (simp_all add: carousel10_eq default_options_def)

lemma carousel10_infinite_fields:
  "currentIndex carousel10_infinite = 0"
  "maxIndex carousel10_infinite = 6"
  "isAnimating carousel10_infinite = False"
  "animationTimeouts carousel10_infinite = 0"
  "infinite (options carousel10_infinite) = True"
  "slideCount carousel10_infinite = 10"
  by (simp_all add: carousel10_infinite_eq carousel10_eq default_options_def)

lemma getResponsiveOptions_no_breakpoints:
  "breakpoints (options s) = [] \<Longrightarrow> getResponsiveOptions s = options s"
  by (simp add: getResponsiveOptions_def responsiveOptions_def sortedBreakpoints_def)

lemma carousel10_effective:
  "slidesPerView (getResponsiveOptions carousel10) = 4"
  "maxIndex (calculateDimensions carousel10) = 6"
  by (simp_all add: calculateDimensions_def Let_def getResponsiveOptions_no_breakpoints
      carousel10_eq default_options_def)

lemma carousel10_infinite_effective:
  "slidesPerView (getResponsiveOptions carousel10_infinite) = 4"
  "maxIndex (calculateDimensions carousel10_infinite) = 6"
  by (simp_all add: calculateDimensions_def Let_def getResponsiveOptions_no_breakpoints
      carousel10_infinite_eq carousel10_eq default_options_def)

lemma example_effective:
  "slidesPerView (responsiveOptions 700 (spread_user default_options example_options)) = 3"
  "gap (responsiveOptions 700 (spread_user default_options example_options)) = 24"
  "slidesPerView (responsiveOptions 500 (spread_user default_options example_options)) = 6 / 5"
  "gap (responsiveOptions 500 (spread_user default_options example_options)) = 16"
  by (simp_all add: responsiveOptions_def sortedBreakpoints_def responsive_step_def
      spread_user_def spread_def default_options_def example_options_def)

lemma init_fields:
  "maxIndex (init s) = maxIndex (calculateDimensions s)"
  "slideWidth (init s) = slideWidth (calculateDimensions s)"
  "slideCount (init s) = slideCount s"
  "options (init s) = options s"
  "innerWidth (init s) = innerWidth s"
  "currentIndex (init s) = currentIndex s"
  by (simp_all add: init_def Let_def bindEvents_def startAutoplay_def calculateDimensions_def)

lemma carousel10_mobile_fields:
  "slideCount carousel10_mobile = 10"
  "innerWidth carousel10_mobile = 500"
  "options carousel10_mobile = spread_user default_options example_options"
  "maxIndex carousel10_mobile = 44 / 5"
  by (simp_all add: carousel10_mobile_def init_fields fields_def page10_mobile_def page10_def
      calculateDimensions_def Let_def getResponsiveOptions_def example_effective)

subsection \<open>The index stays in range\<close>

text \<open>
  C1.  From a state with \<open>0 \<le> currentIndex \<le> maxIndex\<close>, a single call of \<open>goTo\<close>
  (with any index, forced or not), of \<open>prev\<close> or of \<open>next\<close> leads to a state with
  \<open>0 \<le> currentIndex \<le> maxIndex\<close>.  This holds for every configuration, so in
  particular for the valid ones, those with a positive \<open>slidesPerView\<close>.
\<close>

theorem index_in_range_preserved:
  assumes "0 \<le> currentIndex s" and "currentIndex s \<le> maxIndex s"
  shows "(0 \<le> currentIndex (goTo index force s)
            \<and> currentIndex (goTo index force s) \<le> maxIndex (goTo index force s))
       \<and> (0 \<le> currentIndex (prev s) \<and> currentIndex (prev s) \<le> maxIndex (prev s))
       \<and> (0 \<le> currentIndex (next s) \<and> currentIndex (next s) \<le> maxIndex (next s))"
proof -
  have g: "0 \<le> currentIndex (goTo i f s) \<and> currentIndex (goTo i f s) \<le> maxIndex (goTo i f s)"
    for i f
    using assms by (auto simp add: goTo_currentIndex)
  have p: "0 \<le> currentIndex (prev s) \<and> currentIndex (prev s) \<le> maxIndex (prev s)"
    using assms g by (simp add: prev_def)
  have n: "0 \<le> currentIndex (next s) \<and> currentIndex (next s) \<le> maxIndex (next s)"
    using assms g by (simp add: next_def)
  from g p n show ?thesis by blast
qed

theorem index_in_range_preserved_witness:
  "0 \<le> currentIndex carousel10 \<and> currentIndex carousel10 \<le> maxIndex carousel10
   \<and> currentIndex (goTo 9 True carousel10) = 6 \<and> maxIndex (goTo 9 True carousel10) = 6
   \<and> currentIndex (prev carousel10) = 0 \<and> maxIndex (prev carousel10) = 6
   \<and> currentIndex (next carousel10) = 1 \<and> maxIndex (next carousel10) = 6"
  using index_in_range_preserved [of carousel10 9 True]
  by (simp add: carousel10_fields goTo_currentIndex prev_def next_def)

subsection \<open>Dropped navigation requests\<close>



subsection \<open>Stepping to the end\<close>

lemma next_step:
  assumes "\<not> isAnimating s" and "currentIndex s + 1 \<le> maxIndex s" and "0 \<le> currentIndex s"
  shows "currentIndex (fire AnimationTimeout (fire Next s)) = currentIndex s + 1
       \<and> maxIndex (fire AnimationTimeout (fire Next s)) = maxIndex s
       \<and> options (fire AnimationTimeout (fire Next s)) = options s
       \<and> \<not> isAnimating (fire AnimationTimeout (fire Next s))"
  using assms
  by (simp add: next_def goTo_currentIndex goTo_animationTimeouts animationTimeout_def)

text \<open>
  C4.  Ten slides, four per view, dimensions up to date: \<open>maxIndex\<close> is \<open>6\<close>.  From
  index \<open>0\<close> with no animation running, six calls of \<open>next\<close>, the animation timeout
  firing after each, reach index \<open>6\<close>.  A seventh call changes nothing when
  \<open>infinite\<close> is off, and sets the index to \<open>0\<close> when it is on.
\<close>

theorem next_six_times:
  assumes "slideCount s = 10"
    and "slidesPerView (getResponsiveOptions s) = 4"
    and "maxIndex s = maxIndex (calculateDimensions s)"
    and "currentIndex s = 0"
    and "\<not> isAnimating s"
  shows "maxIndex s = 6
       \<and> (let s6 = run [Next, AnimationTimeout, Next, AnimationTimeout, Next, AnimationTimeout,
                         Next, AnimationTimeout, Next, AnimationTimeout, Next, AnimationTimeout] s
          in currentIndex s6 = 6
             \<and> \<not> isAnimating s6
             \<and> (if infinite (options s)
                 then currentIndex (next s6) = 0
                 else currentIndex (next s6) = 6 \<and> next s6 = s6))"
proof -
  have m: "maxIndex s = 6"
    using assms(1,2,3) by (simp add: calculateDimensions_def Let_def)
  define t1 where "t1 = fire AnimationTimeout (fire Next s)"
  define t2 where "t2 = fire AnimationTimeout (fire Next t1)"
  define t3 where "t3 = fire AnimationTimeout (fire Next t2)"
  define t4 where "t4 = fire AnimationTimeout (fire Next t3)"
  define t5 where "t5 = fire AnimationTimeout (fire Next t4)"
  define t6 where "t6 = fire AnimationTimeout (fire Next t5)"
  have s1: "currentIndex t1 = 1 \<and> maxIndex t1 = 6 \<and> options t1 = options s \<and> \<not> isAnimating t1"
    unfolding t1_def using next_step [of s] assms(4,5) m by simp
  have s2: "currentIndex t2 = 2 \<and> maxIndex t2 = 6 \<and> options t2 = options s \<and> \<not> isAnimating t2"
    unfolding t2_def using next_step [of t1] s1 by simp
  have s3: "currentIndex t3 = 3 \<and> maxIndex t3 = 6 \<and> options t3 = options s \<and> \<not> isAnimating t3"
    unfolding t3_def using next_step [of t2] s2 by simp
  have s4: "currentIndex t4 = 4 \<and> maxIndex t4 = 6 \<and> options t4 = options s \<and> \<not> isAnimating t4"
    unfolding t4_def using next_step [of t3] s3 by simp
  have s5: "currentIndex t5 = 5 \<and> maxIndex t5 = 6 \<and> options t5 = options s \<and> \<not> isAnimating t5"
    unfolding t5_def using next_step [of t4] s4 by simp
  have s6: "currentIndex t6 = 6 \<and> maxIndex t6 = 6 \<and> options t6 = options s \<and> \<not> isAnimating t6"
    unfolding t6_def using next_step [of t5] s5 by simp
  have r: "run [Next, AnimationTimeout, Next, AnimationTimeout, Next, AnimationTimeout,
                Next, AnimationTimeout, Next, AnimationTimeout, Next, AnimationTimeout] s = t6"
    unfolding t6_def t5_def t4_def t3_def t2_def t1_def run_def
    by (simp only: fold_simps comp_apply id_apply)
  have last: "(if infinite (options s)
                 then currentIndex (next t6) = 0
                 else currentIndex (next t6) = 6 \<and> next t6 = t6)"
    using s6 by (simp add: next_def goTo_currentIndex)
  show ?thesis
    unfolding r Let_def using m s6 last by simp
qed

theorem next_six_times_witness:
  "currentIndex
     (run [Next, AnimationTimeout, Next, AnimationTimeout, Next, AnimationTimeout,
           Next, AnimationTimeout, Next, AnimationTimeout, Next, AnimationTimeout] carousel10) = 6
   \<and> next (run [Next, AnimationTimeout, Next, AnimationTimeout, Next, AnimationTimeout,
           Next, AnimationTimeout, Next, AnimationTimeout, Next, AnimationTimeout] carousel10)
      = run [Next, AnimationTimeout, Next, AnimationTimeout, Next, AnimationTimeout,
           Next, AnimationTimeout, Next, AnimationTimeout, Next, AnimationTimeout] carousel10
   \<and> currentIndex
     (run [Next, AnimationTimeout, Next, AnimationTimeout, Next, AnimationTimeout,
           Next, AnimationTimeout, Next, AnimationTimeout, Next, AnimationTimeout]
        carousel10_infinite) = 6
   \<and> currentIndex
     (next (run [Next, AnimationTimeout, Next, AnimationTimeout, Next, AnimationTimeout,
           Next, AnimationTimeout, Next, AnimationTimeout, Next, AnimationTimeout]
        carousel10_infinite)) = 0"
proof -
  have c: "slideCount carousel10 = 10"
    "maxIndex carousel10 = maxIndex (calculateDimensions carousel10)"
    "currentIndex carousel10 = 0" "\<not> isAnimating carousel10"
    by (simp_all add: carousel10_fields carousel10_effective)
  have c': "slideCount carousel10_infinite = 10"
    "maxIndex carousel10_infinite = maxIndex (calculateDimensions carousel10_infinite)"
    "currentIndex carousel10_infinite = 0" "\<not> isAnimating carousel10_infinite"
    by (simp_all add: carousel10_infinite_fields carousel10_infinite_effective)
  note t = next_six_times [OF c(1) carousel10_effective(1) c(2,3,4)]
  note t' = next_six_times [OF c'(1) carousel10_infinite_effective(1) c'(2,3,4)]
  from t have 1: "currentIndex
     (run [Next, AnimationTimeout, Next, AnimationTimeout, Next, AnimationTimeout,
           Next, AnimationTimeout, Next, AnimationTimeout, Next, AnimationTimeout] carousel10) = 6
   \<and> next (run [Next, AnimationTimeout, Next, AnimationTimeout, Next, AnimationTimeout,
           Next, AnimationTimeout, Next, AnimationTimeout, Next, AnimationTimeout] carousel10)
      = run [Next, AnimationTimeout, Next, AnimationTimeout, Next, AnimationTimeout,
           Next, AnimationTimeout, Next, AnimationTimeout, Next, AnimationTimeout] carousel10"
    by (simp only: Let_def carousel10_fields if_False)
  from t' have 2: "currentIndex
     (run [Next, AnimationTimeout, Next, AnimationTimeout, Next, AnimationTimeout,
           Next, AnimationTimeout, Next, AnimationTimeout, Next, AnimationTimeout]
        carousel10_infinite) = 6
   \<and> currentIndex
     (next (run [Next, AnimationTimeout, Next, AnimationTimeout, Next, AnimationTimeout,
           Next, AnimationTimeout, Next, AnimationTimeout, Next, AnimationTimeout]
        carousel10_infinite)) = 0"
    by (simp only: Let_def carousel10_infinite_fields if_True)
  from 1 2 show ?thesis by (simp only: simp_thms)
qed

subsection \<open>The progress indicator\<close>

text \<open>
  What \<open>updateProgress\<close> writes when there is a progress element:
  \<open>((currentIndex + 1) / (maxIndex + 1)) \<times> 100\<close> percent when \<open>maxIndex\<close> is positive
  and \<open>100\<close> percent when \<open>maxIndex\<close> is \<open>0\<close>; with index \<open>2\<close> and \<open>maxIndex = 6\<close>
  that is \<open>3/7\<close> of \<open>100\<close>, within a thousandth of \<open>42.857\<close>.
\<close>

lemma updateProgress_width:
  assumes "progressBar s = Some w"
  shows "(maxIndex s > 0 \<longrightarrow>
            progressBar (updateProgress s)
              = Some (Percent (((currentIndex s + 1) / (maxIndex s + 1)) * 100)))
       \<and> (maxIndex s = 0 \<longrightarrow> progressBar (updateProgress s) = Some (Percent 100))
       \<and> (currentIndex s = 2 \<and> maxIndex s = 6 \<longrightarrow>
            progressBar (updateProgress s) = Some (Percent (3 / 7 * 100))
            \<and> \<bar>3 / 7 * 100 - 42857 / 1000\<bar> < (1 / 1000 :: rat))"
  using assms by (simp add: updateProgress_def progress_def)

text \<open>
  The construction and every event but the resize callback keep the progress element
  up to date: \<open>init\<close> and \<open>goTo\<close> end with \<open>updateProgress\<close>, and nothing else changes
  \<open>currentIndex\<close> or \<open>maxIndex\<close>.
\<close>

lemma progress_shown_frame:
  "progress_shown s \<Longrightarrow> currentIndex s' = currentIndex s \<and> maxIndex s' = maxIndex s
     \<and> progressBar s' = progressBar s \<Longrightarrow> progress_shown s'"
  by (auto simp add: progress_shown_def progress_def split: option.splits)

lemma progress_shown_updateProgress: "progress_shown (updateProgress s)"
  by (simp add: progress_shown_def updateProgress_def progress_def split: option.splits)

lemma progress_shown_goTo: "progress_shown s \<Longrightarrow> progress_shown (goTo index force s)"
  by (simp add: progress_shown_def goTo_def Let_def updateProgress_def updateControls_def
      progress_def split: option.splits)


lemma progress_shown_prev_next:
  "progress_shown s \<Longrightarrow> progress_shown (prev s)"
  "progress_shown s \<Longrightarrow> progress_shown (next s)"
  by (simp_all add: prev_def next_def progress_shown_goTo)

lemma progress_shown_release:
  assumes "progress_shown s"
  shows "progress_shown (handleMouseUp k s)" and "progress_shown (handleTouchEnd k s)"
proof -
  have b: "progress_shown (s\<lparr>isDragging := False, trackCursor := Grab,
             trackTransition := TransformEase\<rparr>)"
    "progress_shown (s\<lparr>isDragging := False, trackTransition := TransformEase\<rparr>)"
    by (rule progress_shown_frame [OF assms], simp)+
  have c: "progress_shown (t\<lparr>dragResetTimeouts := n\<rparr>)" if "progress_shown t" for t n
    by (rule progress_shown_frame [OF that]) simp
  show "progress_shown (handleMouseUp k s)"
    using assms b(1) by (simp add: handleMouseUp_def Let_def progress_shown_goTo c)
  show "progress_shown (handleTouchEnd k s)"
    using assms b(2) by (simp add: handleTouchEnd_def Let_def progress_shown_goTo c)
qed

lemma frame_progress:
  "currentIndex (fire (MouseDown x) s) = currentIndex s
     \<and> maxIndex (fire (MouseDown x) s) = maxIndex s
     \<and> progressBar (fire (MouseDown x) s) = progressBar s"
  "currentIndex (fire (TouchStart x) s) = currentIndex s
     \<and> maxIndex (fire (TouchStart x) s) = maxIndex s
     \<and> progressBar (fire (TouchStart x) s) = progressBar s"
  "currentIndex (fire (MouseMove x) s) = currentIndex s
     \<and> maxIndex (fire (MouseMove x) s) = maxIndex s
     \<and> progressBar (fire (MouseMove x) s) = progressBar s"
  "currentIndex (fire (TouchMove x) s) = currentIndex s
     \<and> maxIndex (fire (TouchMove x) s) = maxIndex s
     \<and> progressBar (fire (TouchMove x) s) = progressBar s"
  "currentIndex (fire AnimationTimeout s) = currentIndex s
     \<and> maxIndex (fire AnimationTimeout s) = maxIndex s
     \<and> progressBar (fire AnimationTimeout s) = progressBar s"
  "currentIndex (fire DragResetTimeout s) = currentIndex s
     \<and> maxIndex (fire DragResetTimeout s) = maxIndex s
     \<and> progressBar (fire DragResetTimeout s) = progressBar s"
  by (simp_all add: handleMouseDown_def handleTouchStart_def handleMouseMove_def
      handleTouchMove_def animationTimeout_def dragResetTimeout_def Let_def)

lemma frame_progress_autoplay:
  "currentIndex (startAutoplay s) = currentIndex s
     \<and> maxIndex (startAutoplay s) = maxIndex s
     \<and> progressBar (startAutoplay s) = progressBar s"
  "currentIndex (stopAutoplay s) = currentIndex s
     \<and> maxIndex (stopAutoplay s) = maxIndex s
     \<and> progressBar (stopAutoplay s) = progressBar s"
  by (simp_all add: startAutoplay_def stopAutoplay_def Let_def split: option.splits)

lemma progress_shown_fire:
  assumes "progress_shown s" and "\<not> is_resize e"
  shows "progress_shown (fire e s)"
proof (cases e)
  case (Resize w c)
  with assms(2) show ?thesis by simp
next
  case (MouseMove x)
  then show ?thesis
    using progress_shown_frame [OF assms(1) frame_progress(3)] by simp
next
  case (TouchMove x)
  then show ?thesis
    using progress_shown_frame [OF assms(1) frame_progress(4)] by simp
next
  case (MouseDown x)
  then show ?thesis
    using progress_shown_frame [OF assms(1) frame_progress(1)] by simp
next
  case (TouchStart x)
  then show ?thesis
    using progress_shown_frame [OF assms(1) frame_progress(2)] by simp
next
  case AnimationTimeout
  then show ?thesis
    using progress_shown_frame [OF assms(1) frame_progress(5)] by simp
next
  case DragResetTimeout
  then show ?thesis
    using progress_shown_frame [OF assms(1) frame_progress(6)] by simp
next
  case StartAutoplay
  then show ?thesis
    using progress_shown_frame [OF assms(1) frame_progress_autoplay(1)] by simp
next
  case MouseLeave
  then show ?thesis
    using assms(1) progress_shown_frame [OF assms(1) frame_progress_autoplay(1)] by simp
next
  case StopAutoplay
  then show ?thesis
    using progress_shown_frame [OF assms(1) frame_progress_autoplay(2)] by simp
next
  case Destroy
  then show ?thesis
    using progress_shown_frame [OF assms(1) frame_progress_autoplay(2)]
    by (simp add: destroy_def)
next
  case MouseEnter
  then show ?thesis
    using assms(1) progress_shown_frame [OF assms(1) frame_progress_autoplay(2)] by simp
qed (use assms(1) in \<open>simp_all add: progress_shown_goTo progress_shown_prev_next
      progress_shown_release autoplayTick_def\<close>)

lemma progress_shown_init: "progress_shown (init s)"
proof -
  have "progress_shown (startAutoplay t)" if "progress_shown t" for t
    by (rule progress_shown_frame [OF that frame_progress_autoplay(1)])
  then show ?thesis
    by (simp add: init_def Let_def progress_shown_updateProgress)
qed

lemma progress_shown_run:
  assumes "constructor pg u = Some s0" and "\<forall>e \<in> set es. \<not> is_resize e"
  shows "progress_shown (run es s0)"
proof -
  have "progress_shown s0"
    using assms(1) by (auto simp add: constructor_def progress_shown_init split: if_splits)
  moreover have "progress_shown s \<Longrightarrow> \<forall>e \<in> set es. \<not> is_resize e \<Longrightarrow>
      progress_shown (fold fire es s)" for s
  proof (induction es arbitrary: s)
    case Nil
    then show ?case by simp
  next
    case (Cons e es)
    then show ?case
      using progress_shown_fire [of s e] by (simp del: fire.simps)
  qed
  ultimately show ?thesis
    using assms(2) by (simp add: run_def)
qed

lemma carousel10_example_eq:
  "carousel10_example = carousel10\<lparr>options := spread_user default_options example_options\<rparr>"
  by (simp add: carousel10_eq carousel10_example_def init_def fields_def
      calculateDimensions_def getResponsiveOptions_def responsiveOptions_def
      sortedBreakpoints_def responsive_step_def
      bindEvents_def updateControls_def updateProgress_def progress_def
      spread_user_def spread_def default_options_def page10_def example_options_def Let_def)

lemma constructor_page10_example:
  "constructor page10 example_options = Some carousel10_example"
  by (simp add: constructor_def carousel10_example_def page10_def)

text \<open>
  C7.  The progress indicator is to show \<open>((currentIndex + 1) / (maxIndex + 1)) \<times> 100\<close>
  percent (\<open>100\<close> when \<open>maxIndex\<close> is \<open>0\<close>) in every state, and the code does so in
  every state reached without a resize (\<open>progress_shown_run\<close>).  The resize callback
  breaks it: it recalculates \<open>maxIndex\<close> and calls \<open>goTo\<close> without force, which
  returns before \<open>updateProgress\<close> when the index is unchanged.  The instance with
  the example configuration, moved to index \<open>6\<close> in a window of 1400 pixels and then
  resized to 1000 pixels, rests at index \<open>6\<close> with \<open>maxIndex = 7\<close>: the element still
  shows \<open>100\<close> percent, where the formula gives \<open>87.5\<close>.
\<close>

theorem progress_stale_after_resize:
  "currentIndex (run [GoTo 6 False, AnimationTimeout, Resize 1000 980] carousel10_example) = 6
   \<and> maxIndex (run [GoTo 6 False, AnimationTimeout, Resize 1000 980] carousel10_example) = 7
   \<and> isAnimating (run [GoTo 6 False, AnimationTimeout, Resize 1000 980] carousel10_example)
       = False
   \<and> progressBar (run [GoTo 6 False, AnimationTimeout, Resize 1000 980] carousel10_example)
       = Some (Percent 100)
   \<and> progress (run [GoTo 6 False, AnimationTimeout, Resize 1000 980] carousel10_example)
       = 175 / 2"
proof -
  let ?a = "run [GoTo 6 False, AnimationTimeout] carousel10_example"
  have a: "?a = carousel10_example\<lparr>currentIndex := 6, prevBtn := Some False,
      nextBtn := Some True, progressBar := Some (Percent 100),
      trackTransform := Some (- 1944), trackTransition := TransformEase\<rparr>"
    by (simp add: run_def carousel10_example_eq carousel10_eq goTo_def Let_def
        getResponsiveOptions_def responsiveOptions_def sortedBreakpoints_def
        responsive_step_def updateControls_def updateProgress_def progress_def
        animationTimeout_def spread_user_def spread_def default_options_def
        example_options_def)
  have r: "run [GoTo 6 False, AnimationTimeout, Resize 1000 980] carousel10_example
             = fire (Resize 1000 980) ?a"
    by (simp add: run_def del: fire.simps)
  have e: "slidesPerView (responsiveOptions 1000 (spread_user default_options example_options))
             = 3"
    by (simp add: responsiveOptions_def sortedBreakpoints_def responsive_step_def
        spread_user_def spread_def default_options_def example_options_def)
  have c: "currentIndex (calculateDimensions (?a\<lparr>innerWidth := 1000, offsetWidth := 980\<rparr>)) = 6"
    "maxIndex (calculateDimensions (?a\<lparr>innerWidth := 1000, offsetWidth := 980\<rparr>)) = 7"
    "isAnimating (calculateDimensions (?a\<lparr>innerWidth := 1000, offsetWidth := 980\<rparr>)) = False"
    "progressBar (calculateDimensions (?a\<lparr>innerWidth := 1000, offsetWidth := 980\<rparr>))
       = Some (Percent 100)"
    unfolding a
    by (simp_all add: calculateDimensions_def Let_def getResponsiveOptions_def e
        carousel10_example_eq carousel10_eq)
  have f: "fire (Resize 1000 980) ?a
             = calculateDimensions (?a\<lparr>innerWidth := 1000, offsetWidth := 980\<rparr>)"
    using c by (simp add: Let_def goTo_def del: fold_simps)
  show ?thesis
    unfolding r f using c by (simp add: progress_def del: fold_simps)
qed

subsection \<open>Dimensions\<close>

lemma not_integer_44_5: "(44 / 5 :: rat) \<notin> \<int>"
proof
  assume "(44 / 5 :: rat) \<in> \<int>"
  then obtain z :: int where "(44 / 5 :: rat) = of_int z"
    by (rule Ints_cases)
  then have "(of_int 44 :: rat) = of_int (5 * z)"
    by simp
  then have "44 = 5 * z"
    by (simp only: of_int_eq_iff)
  then show False
    by presburger
qed

text \<open>
  C2, as stated, fails: the instance built with the example configuration in a window
  of 500 pixels has ten slides and an effective \<open>slidesPerView\<close> of \<open>6/5\<close>; its
  \<open>maxIndex\<close> is \<open>44/5\<close>, which is not an integer and is not
  \<open>max(0, 10 - ceil(6/5)) = 8\<close>.
\<close>

theorem maxIndex_ceiling_counterexample:
  "constructor page10_mobile example_options = Some carousel10_mobile
   \<and> slideCount carousel10_mobile = 10
   \<and> slidesPerView (getResponsiveOptions carousel10_mobile) = 6 / 5
   \<and> maxIndex carousel10_mobile = 44 / 5
   \<and> maxIndex (calculateDimensions carousel10_mobile) = 44 / 5
   \<and> max 0 (of_nat (slideCount carousel10_mobile)
        - of_int \<lceil>slidesPerView (getResponsiveOptions carousel10_mobile)\<rceil>) = (8 :: rat)
   \<and> maxIndex (calculateDimensions carousel10_mobile) \<notin> \<int>"
proof -
  have c: "constructor page10_mobile example_options = Some carousel10_mobile"
    by (simp add: constructor_def carousel10_mobile_def page10_mobile_def page10_def)
  have e: "slidesPerView (getResponsiveOptions carousel10_mobile) = 6 / 5"
    by (simp add: getResponsiveOptions_def carousel10_mobile_fields example_effective)
  have m: "maxIndex (calculateDimensions carousel10_mobile) = 44 / 5"
    using e by (simp add: calculateDimensions_def Let_def carousel10_mobile_fields)
  have k: "\<lceil>6 / 5 :: rat\<rceil> = 2"
    by (simp add: ceiling_eq_iff)
  show ?thesis
    unfolding e m using c k not_integer_44_5 by (simp add: carousel10_mobile_fields)
qed

text \<open>
  C2, amended.  After a dimension recalculation \<open>maxIndex\<close> is
  \<open>max(0, slideCount - slidesPerView)\<close> for the effective \<open>slidesPerView\<close>, with no
  rounding.  When the effective \<open>slidesPerView\<close> is an integer, \<open>maxIndex\<close> is an
  integer and equals \<open>max(0, slideCount - ceil(slidesPerView))\<close>.
\<close>

theorem maxIndex_value:
  "maxIndex (calculateDimensions s)
     = max 0 (of_nat (slideCount s) - slidesPerView (getResponsiveOptions s))
   \<and> (slidesPerView (getResponsiveOptions s) \<in> \<int> \<longrightarrow>
        maxIndex (calculateDimensions s) \<in> \<int>
        \<and> maxIndex (calculateDimensions s)
            = max 0 (of_nat (slideCount s) - of_int \<lceil>slidesPerView (getResponsiveOptions s)\<rceil>))"
proof -
  have v: "maxIndex (calculateDimensions s)
             = max 0 (of_nat (slideCount s) - slidesPerView (getResponsiveOptions s))"
    by (simp add: calculateDimensions_def Let_def)
  have i: "max 0 (of_nat (slideCount s) - x) \<in> \<int>
           \<and> max 0 (of_nat (slideCount s) - x) = max 0 (of_nat (slideCount s) - of_int \<lceil>x\<rceil>)"
    if "x \<in> \<int>" for x :: rat
  proof -
    from that obtain z :: int where z: "x = of_int z"
      by (rule Ints_cases)
    have "max (0 :: rat) (of_nat (slideCount s) - of_int z) \<in> \<int>"
      by (simp add: max_def)
    then show ?thesis
      by (simp add: z)
  qed
  from v i show ?thesis
    by simp
qed

theorem maxIndex_value_witness:
  "slidesPerView (getResponsiveOptions carousel10) \<in> \<int>
   \<and> maxIndex (calculateDimensions carousel10) = 6
   \<and> max 0 (of_nat (slideCount carousel10)
        - of_int \<lceil>slidesPerView (getResponsiveOptions carousel10)\<rceil>) = (6 :: rat)"
  using maxIndex_value [of carousel10]
  by (simp add: carousel10_effective carousel10_fields)

text \<open>
  C3.  Every dimension recalculation (a call of \<open>calculateDimensions\<close>, the resize
  callback, the construction) leaves \<open>maxIndex = max(0, slideCount - slidesPerView)\<close>
  and, for a non-zero \<open>slidesPerView\<close>,
  \<open>slideWidth = (containerWidth - gap \<times> (slidesPerView - 1)) / slidesPerView\<close>, where
  \<open>slidesPerView\<close> and \<open>gap\<close> are the effective values for the window width at that
  moment.
\<close>

theorem dimensions_after_recalculation:
  "(let eff = getResponsiveOptions s; s' = calculateDimensions s
    in maxIndex s' = max 0 (of_nat (slideCount s) - slidesPerView eff)
       \<and> (slidesPerView eff \<noteq> 0 \<longrightarrow>
            slideWidth s'
              = (offsetWidth s - gap eff * (slidesPerView eff - 1)) / slidesPerView eff))
   \<and> (let eff = responsiveOptions w (options s); s' = fire (Resize w c) s
      in maxIndex s' = max 0 (of_nat (slideCount s) - slidesPerView eff)
         \<and> (slidesPerView eff \<noteq> 0 \<longrightarrow>
              slideWidth s' = (c - gap eff * (slidesPerView eff - 1)) / slidesPerView eff))
   \<and> (constructor pg u = Some s0 \<longrightarrow>
        (let eff = responsiveOptions (pg_innerWidth pg) (spread_user default_options u)
         in maxIndex s0 = max 0 (of_nat (pg_slides pg) - slidesPerView eff)
            \<and> (slidesPerView eff \<noteq> 0 \<longrightarrow>
                 slideWidth s0
                   = (pg_offsetWidth pg - gap eff * (slidesPerView eff - 1))
                       / slidesPerView eff)))"
proof -
  have a: "maxIndex (calculateDimensions t)
             = max 0 (of_nat (slideCount t) - slidesPerView (getResponsiveOptions t))
           \<and> slideWidth (calculateDimensions t)
             = (offsetWidth t - gap (getResponsiveOptions t)
                  * (slidesPerView (getResponsiveOptions t) - 1))
               / slidesPerView (getResponsiveOptions t)" for t
    by (simp add: calculateDimensions_def Let_def)
  have b: "getResponsiveOptions (s\<lparr>innerWidth := w, offsetWidth := c\<rparr>)
             = responsiveOptions w (options s)"
    by (simp add: getResponsiveOptions_def)
  have d: "getResponsiveOptions (fields pg u)
             = responsiveOptions (pg_innerWidth pg) (spread_user default_options u)"
    by (simp add: getResponsiveOptions_def fields_def)
  have f: "slideCount (fields pg u) = pg_slides pg"
    "offsetWidth (fields pg u) = pg_offsetWidth pg"
    by (simp_all add: fields_def)
  have 1: "(let eff = getResponsiveOptions s; s' = calculateDimensions s
    in maxIndex s' = max 0 (of_nat (slideCount s) - slidesPerView eff)
       \<and> (slidesPerView eff \<noteq> 0 \<longrightarrow>
            slideWidth s'
              = (offsetWidth s - gap eff * (slidesPerView eff - 1)) / slidesPerView eff))"
    using a [of s] by (simp add: Let_def)
  have 2: "(let eff = responsiveOptions w (options s); s' = fire (Resize w c) s
      in maxIndex s' = max 0 (of_nat (slideCount s) - slidesPerView eff)
         \<and> (slidesPerView eff \<noteq> 0 \<longrightarrow>
              slideWidth s' = (c - gap eff * (slidesPerView eff - 1)) / slidesPerView eff))"
    using a [of "s\<lparr>innerWidth := w, offsetWidth := c\<rparr>"] b by (simp add: Let_def)
  have 3: "(constructor pg u = Some s0 \<longrightarrow>
        (let eff = responsiveOptions (pg_innerWidth pg) (spread_user default_options u)
         in maxIndex s0 = max 0 (of_nat (pg_slides pg) - slidesPerView eff)
            \<and> (slidesPerView eff \<noteq> 0 \<longrightarrow>
                 slideWidth s0
                   = (pg_offsetWidth pg - gap eff * (slidesPerView eff - 1))
                       / slidesPerView eff)))"
    using a [of "fields pg u"] d f
    by (auto simp add: constructor_def Let_def init_fields split: if_splits)
  from 1 2 3 show ?thesis by blast
qed

theorem dimensions_after_recalculation_witness:
  "constructor page10_mobile example_options = Some carousel10_mobile
   \<and> maxIndex carousel10_mobile = 44 / 5
   \<and> slideWidth carousel10_mobile = 1192 / 3
   \<and> maxIndex (fire (Resize 700 680) carousel10_mobile) = 7
   \<and> slideWidth (fire (Resize 700 680) carousel10_mobile) = 632 / 3"
proof -
  have c: "constructor page10_mobile example_options = Some carousel10_mobile"
    by (simp add: constructor_def carousel10_mobile_def page10_mobile_def page10_def)
  have p: "pg_innerWidth page10_mobile = 500" "pg_offsetWidth page10_mobile = 480"
    "pg_slides page10_mobile = 10"
    by (simp_all add: page10_mobile_def page10_def)
  show ?thesis
    using c dimensions_after_recalculation
      [where s = carousel10_mobile and w = 700 and c = 680 and pg = page10_mobile
         and u = example_options and ?s0.0 = carousel10_mobile]
    by (simp add: Let_def p carousel10_mobile_fields example_effective del: fire.simps)
qed

subsection \<open>The autoplay timer\<close>

lemma timers_ok_frame:
  "autoplayInterval s' = autoplayInterval s \<and> intervals s' = intervals s \<Longrightarrow>
   timers_ok s \<Longrightarrow> timers_ok s'"
  by (auto simp add: timers_ok_def split: option.splits)

lemma timers_ok_startAutoplay: "timers_ok s \<Longrightarrow> timers_ok (startAutoplay s)"
  by (auto simp add: timers_ok_def startAutoplay_def truthy_def Let_def split: option.splits)

lemma timers_ok_stopAutoplay: "timers_ok s \<Longrightarrow> timers_ok (stopAutoplay s)"
  by (auto simp add: timers_ok_def stopAutoplay_def split: option.splits)

lemma timers_ok_init: "timers_ok (init (fields pg u))"
  by (simp add: timers_ok_def init_def Let_def startAutoplay_def truthy_def bindEvents_def
      calculateDimensions_def fields_def)

lemma frame_navigation:
  "autoplayInterval (fire Prev s) = autoplayInterval s \<and> intervals (fire Prev s) = intervals s"
  "autoplayInterval (fire Next s) = autoplayInterval s \<and> intervals (fire Next s) = intervals s"
  "autoplayInterval (fire (GoTo i f) s) = autoplayInterval s
     \<and> intervals (fire (GoTo i f) s) = intervals s"
  "autoplayInterval (fire ClickPrev s) = autoplayInterval s
     \<and> intervals (fire ClickPrev s) = intervals s"
  "autoplayInterval (fire ClickNext s) = autoplayInterval s
     \<and> intervals (fire ClickNext s) = intervals s"
  "autoplayInterval (fire AutoplayTick s) = autoplayInterval s
     \<and> intervals (fire AutoplayTick s) = intervals s"
  by (simp_all add: autoplayTick_def)

lemma frame_simple:
  "autoplayInterval (fire (MouseDown x) s) = autoplayInterval s
     \<and> intervals (fire (MouseDown x) s) = intervals s"
  "autoplayInterval (fire (TouchStart x) s) = autoplayInterval s
     \<and> intervals (fire (TouchStart x) s) = intervals s"
  "autoplayInterval (fire AnimationTimeout s) = autoplayInterval s
     \<and> intervals (fire AnimationTimeout s) = intervals s"
  "autoplayInterval (fire DragResetTimeout s) = autoplayInterval s
     \<and> intervals (fire DragResetTimeout s) = intervals s"
  by (simp_all add: handleMouseDown_def handleTouchStart_def animationTimeout_def
      dragResetTimeout_def)

lemma frame_drag:
  "autoplayInterval (fire (MouseMove x) s) = autoplayInterval s
     \<and> intervals (fire (MouseMove x) s) = intervals s"
  "autoplayInterval (fire (TouchMove x) s) = autoplayInterval s
     \<and> intervals (fire (TouchMove x) s) = intervals s"
  "autoplayInterval (fire (MouseUp k) s) = autoplayInterval s
     \<and> intervals (fire (MouseUp k) s) = intervals s"
  "autoplayInterval (fire (TouchEnd k) s) = autoplayInterval s
     \<and> intervals (fire (TouchEnd k) s) = intervals s"
  by (simp_all add: handleMouseMove_def handleTouchMove_def handleMouseUp_def
      handleTouchEnd_def Let_def)

lemma frame_resize:
  "autoplayInterval (fire (Resize w c) s) = autoplayInterval s
     \<and> intervals (fire (Resize w c) s) = intervals s"
  by (simp add: calculateDimensions_def Let_def)

lemma timers_ok_fire:
  assumes "timers_ok s"
  shows "timers_ok (fire e s)"
proof (cases e)
  case StartAutoplay
  then show ?thesis using assms by (simp add: timers_ok_startAutoplay)
next
  case StopAutoplay
  then show ?thesis using assms by (simp add: timers_ok_stopAutoplay)
next
  case Destroy
  then show ?thesis using assms by (simp add: destroy_def timers_ok_stopAutoplay)
next
  case MouseEnter
  then show ?thesis using assms by (simp add: timers_ok_stopAutoplay)
next
  case MouseLeave
  then show ?thesis using assms by (simp add: timers_ok_startAutoplay)
qed (use assms in \<open>simp_all only: timers_ok_frame [OF frame_navigation(1)]
      timers_ok_frame [OF frame_navigation(2)] timers_ok_frame [OF frame_navigation(3)]
      timers_ok_frame [OF frame_navigation(4)] timers_ok_frame [OF frame_navigation(5)]
      timers_ok_frame [OF frame_navigation(6)] timers_ok_frame [OF frame_simple(1)]
      timers_ok_frame [OF frame_simple(2)] timers_ok_frame [OF frame_simple(3)]
      timers_ok_frame [OF frame_simple(4)] timers_ok_frame [OF frame_drag(1)]
      timers_ok_frame [OF frame_drag(2)] timers_ok_frame [OF frame_drag(3)]
      timers_ok_frame [OF frame_drag(4)] timers_ok_frame [OF frame_resize]\<close>)

lemma timers_ok_run: "timers_ok s \<Longrightarrow> timers_ok (run es s)"
  unfolding run_def
proof (induction es arbitrary: s)
  case Nil
  then show ?case by simp
next
  case (Cons e es)
  then show ?case
    using timers_ok_fire [of s e] by (simp del: fire.simps)
qed

lemma startAutoplay_noop: "truthy (autoplayInterval s) \<Longrightarrow> startAutoplay s = s"
  by (simp add: startAutoplay_def)

lemma startAutoplay_truthy: "truthy (autoplayInterval (startAutoplay s))"
  by (simp add: startAutoplay_def truthy_def Let_def)

lemma startAutoplay_idem: "startAutoplay (startAutoplay s) = startAutoplay s"
  by (rule startAutoplay_noop) (rule startAutoplay_truthy)

lemma timers_ok_truthy: "timers_ok s \<Longrightarrow> intervals s \<noteq> [] \<Longrightarrow> truthy (autoplayInterval s)"
  by (auto simp add: timers_ok_def truthy_def split: option.splits)

lemma timers_ok_length: "timers_ok s \<Longrightarrow> length (intervals s) \<le> 1"
  by (auto simp add: timers_ok_def split: option.splits)

lemma timers_ok_started: "timers_ok s \<Longrightarrow> length (intervals (startAutoplay s)) = 1"
  by (auto simp add: timers_ok_def startAutoplay_def truthy_def Let_def split: option.splits)

lemma timers_ok_stopped:
  "timers_ok s \<Longrightarrow> intervals (stopAutoplay s) = [] \<and> autoplayInterval (stopAutoplay s) = None"
  by (auto simp add: timers_ok_def stopAutoplay_def split: option.splits)

lemma carousel10_autoplay_eq:
  "carousel10_autoplay = carousel10\<lparr>options := default_options\<lparr>autoplay := True\<rparr>,
     autoplayInterval := Some 1, intervals := [1], timerSeq := 1\<rparr>"
  by (simp add: carousel10_eq carousel10_autoplay_def autoplay_options_def init_def fields_def
      calculateDimensions_def getResponsiveOptions_def responsiveOptions_def
      sortedBreakpoints_def bindEvents_def updateControls_def updateProgress_def progress_def
      startAutoplay_def truthy_def
      spread_user_def spread_def default_options_def page10_def no_options_def Let_def)

lemma carousel10_autoplay_run:
  "intervals carousel10_autoplay = [1]"
  "intervals (run [MouseEnter] carousel10_autoplay) = []"
  "intervals (run [MouseEnter, MouseLeave, StartAutoplay] carousel10_autoplay) = [2]"
  by (simp_all add: run_def carousel10_autoplay_eq startAutoplay_def stopAutoplay_def
      truthy_def default_options_def Let_def)

text \<open>
  C9.  In every state an instance reaches after its construction, whatever the events:
  at most one interval timer is running; if one is running, \<open>startAutoplay\<close> changes
  nothing, so no second timer is created; \<open>startAutoplay\<close> twice is \<open>startAutoplay\<close>
  once, and leaves exactly one timer; and \<open>stopAutoplay\<close> leaves no timer running and
  \<open>autoplayInterval\<close> at \<open>null\<close>.
\<close>

theorem autoplay_single_timer:
  assumes "constructor pg u = Some s0"
  shows "(let s = run es s0
          in length (intervals s) \<le> 1
             \<and> (intervals s \<noteq> [] \<longrightarrow> startAutoplay s = s)
             \<and> startAutoplay (startAutoplay s) = startAutoplay s
             \<and> length (intervals (startAutoplay s)) = 1
             \<and> intervals (stopAutoplay s) = []
             \<and> autoplayInterval (stopAutoplay s) = None)"
proof -
  have "s0 = init (fields pg u)"
    using assms by (simp add: constructor_def split: if_splits)
  then have ok: "timers_ok (run es s0)"
    by (simp add: timers_ok_init timers_ok_run)
  show ?thesis
    unfolding Let_def
    using timers_ok_length [OF ok] timers_ok_truthy [OF ok] timers_ok_started [OF ok]
      timers_ok_stopped [OF ok] startAutoplay_idem [of "run es s0"]
      startAutoplay_noop [of "run es s0"]
    by blast
qed

theorem autoplay_single_timer_witness:
  "constructor page10 autoplay_options = Some carousel10_autoplay
   \<and> intervals carousel10_autoplay = [1]
   \<and> intervals (run [MouseEnter] carousel10_autoplay) = []
   \<and> intervals (run [MouseEnter, MouseLeave, StartAutoplay] carousel10_autoplay) = [2]
   \<and> startAutoplay (run [MouseEnter, MouseLeave, StartAutoplay] carousel10_autoplay)
       = run [MouseEnter, MouseLeave, StartAutoplay] carousel10_autoplay
   \<and> intervals (stopAutoplay (run [MouseEnter, MouseLeave, StartAutoplay] carousel10_autoplay))
       = []"
proof -
  have c: "constructor page10 autoplay_options = Some carousel10_autoplay"
    by (simp add: constructor_def carousel10_autoplay_def page10_def)
  note t = autoplay_single_timer [OF c, of "[MouseEnter, MouseLeave, StartAutoplay]"]
  from t c carousel10_autoplay_run show ?thesis
    by (simp add: Let_def del: fire.simps)
qed

subsection \<open>Nothing to scroll\<close>

lemma at_zero_goTo:
  "maxIndex s = 0 \<Longrightarrow> currentIndex s = 0 \<Longrightarrow> currentIndex (goTo index force s) = 0"
  by (simp add: goTo_currentIndex)

lemma at_zero_prev_next:
  assumes "maxIndex s = 0" and "currentIndex s = 0"
  shows "prev s = s" and "next s = s"
  using assms by (simp_all add: prev_def next_def goTo_def)

lemma at_zero_fire:
  assumes "maxIndex s = 0" and "currentIndex s = 0" and "\<not> is_resize e"
  shows "maxIndex (fire e s) = 0 \<and> currentIndex (fire e s) = 0"
proof (cases e)
  case (MouseUp k)
  then show ?thesis
    using assms by (simp add: handleMouseUp_def Let_def goTo_currentIndex)
next
  case (TouchEnd k)
  then show ?thesis
    using assms by (simp add: handleTouchEnd_def Let_def goTo_currentIndex)
next
  case (MouseMove x)
  then show ?thesis
    using assms by (simp add: handleMouseMove_def Let_def)
next
  case (TouchMove x)
  then show ?thesis
    using assms by (simp add: handleTouchMove_def Let_def)
qed (use assms in \<open>simp_all add: at_zero_goTo at_zero_prev_next startAutoplay_def
      stopAutoplay_def destroy_def handleMouseDown_def handleTouchStart_def
      animationTimeout_def dragResetTimeout_def autoplayTick_def Let_def
      split: option.splits\<close>)

lemma at_zero_run:
  assumes "maxIndex s = 0" and "currentIndex s = 0" and "\<forall>e \<in> set es. \<not> is_resize e"
  shows "maxIndex (run es s) = 0 \<and> currentIndex (run es s) = 0"
  using assms unfolding run_def
proof (induction es arbitrary: s)
  case Nil
  then show ?case by simp
next
  case (Cons e es)
  have "maxIndex (fire e s) = 0 \<and> currentIndex (fire e s) = 0"
    using Cons.prems at_zero_fire [of s e] by simp
  then show ?case
    using Cons.IH [of "fire e s"] Cons.prems(3) by (simp del: fire.simps)
qed

text \<open>
  C10.  An instance constructed with no more slides than the effective \<open>slidesPerView\<close>
  has \<open>maxIndex = 0\<close> and \<open>currentIndex = 0\<close>, and stays so through every sequence of
  \<open>prev\<close>, \<open>next\<close> and \<open>goTo\<close> calls, and indeed of any events with no resize among
  them; \<open>prev\<close> and \<open>next\<close> then return the state unchanged.  This holds with
  \<open>infinite\<close> off, as claimed, and with it on as well.
\<close>

theorem no_navigation_when_all_slides_visible:
  assumes "constructor pg u = Some s0"
    and "of_nat (pg_slides pg)
           \<le> slidesPerView (responsiveOptions (pg_innerWidth pg) (spread_user default_options u))"
    and "\<forall>e \<in> set es. \<not> is_resize e"
  shows "maxIndex s0 = 0 \<and> currentIndex s0 = 0
       \<and> maxIndex (run es s0) = 0 \<and> currentIndex (run es s0) = 0
       \<and> prev (run es s0) = run es s0 \<and> next (run es s0) = run es s0"
proof -
  have s0: "s0 = init (fields pg u)"
    using assms(1) by (simp add: constructor_def split: if_splits)
  have m: "maxIndex s0 = 0"
    using assms(2)
    by (simp add: s0 init_fields calculateDimensions_def Let_def getResponsiveOptions_def
        fields_def)
  have c: "currentIndex s0 = 0"
    by (simp add: s0 init_fields fields_def)
  have r: "maxIndex (run es s0) = 0 \<and> currentIndex (run es s0) = 0"
    using m c assms(3) by (rule at_zero_run)
  from m c r at_zero_prev_next [of "run es s0"] show ?thesis
    by simp
qed

theorem no_navigation_when_all_slides_visible_witness:
  "constructor page3 no_options = Some carousel3
   \<and> rat_of_nat (pg_slides page3)
       \<le> slidesPerView (responsiveOptions (pg_innerWidth page3)
            (spread_user default_options no_options))
   \<and> infinite (options carousel3) = False
   \<and> currentIndex
        (run [Next, GoTo 2 True, AnimationTimeout, Prev, GoTo 1 False, MouseDown 10, MouseUp (- 3)]
           carousel3) = 0"
proof -
  have c: "constructor page3 no_options = Some carousel3"
    by (simp add: constructor_def carousel3_def page3_def page10_def)
  have l: "rat_of_nat (pg_slides page3)
       \<le> slidesPerView (responsiveOptions (pg_innerWidth page3)
            (spread_user default_options no_options))"
    by (simp add: page3_def page10_def responsiveOptions_def sortedBreakpoints_def
        spread_user_def spread_def default_options_def no_options_def)
  have i: "infinite (options carousel3) = False"
    by (simp add: carousel3_def init_fields fields_def spread_user_def spread_def
        default_options_def no_options_def)
  have e: "\<forall>e \<in> set [Next, GoTo 2 True, AnimationTimeout, Prev, GoTo 1 False, MouseDown 10,
             MouseUp (- 3)]. \<not> is_resize e"
    by simp
  from no_navigation_when_all_slides_visible [OF c l e] c l i show ?thesis
    by (simp only: simp_thms)
qed

subsection \<open>Responsive resolution\<close>

lemma map_fst_insort_key:
  "map fst (insort_key (\<lambda>(k, ov). - k) x ys) = insort_key (\<lambda>k. - k) (fst x) (map fst ys)"
  for x :: "rat \<times> 'b"
  by (induction ys) (auto simp add: case_prod_beta)

lemma map_fst_sort_key:
  "map fst (sort_key (\<lambda>(k, ov). - k) xs) = sort_key (\<lambda>k. - k) (map fst xs)"
  for xs :: "(rat \<times> 'b) list"
  by (induction xs) (simp_all add: map_fst_insort_key)

lemma fold_responsive_step:
  assumes "\<forall>(k, ov) \<in> set ps. map_of (breakpoints base) k = Some ov"
  shows "fold (responsive_step width base) (map fst ps) acc
           = foldl spread acc (map snd (filter (\<lambda>(k, ov). width \<le> k) ps))"
  using assms
proof (induction ps arbitrary: acc)
  case Nil
  then show ?case by simp
next
  case (Cons p ps)
  obtain k ov where p: "p = (k, ov)"
    by (cases p)
  from Cons.prems p have m: "map_of (breakpoints base) k = Some ov"
    by simp
  from Cons.prems have rest: "\<forall>(k, ov) \<in> set ps. map_of (breakpoints base) k = Some ov"
    by simp
  show ?case
    using Cons.IH [OF rest] m by (simp add: p responsive_step_def)
qed

lemma responsiveOptions_overlay_spec:
  assumes "distinct (map fst (breakpoints base))"
  shows "responsiveOptions width base = overlay_spec width base"
proof -
  let ?ps = "sort_key (\<lambda>(k, ov). - k) (breakpoints base)"
  have keys: "sortedBreakpoints base = map fst ?ps"
    by (simp add: sortedBreakpoints_def map_fst_sort_key)
  have look: "\<forall>(k, ov) \<in> set ?ps. map_of (breakpoints base) k = Some ov"
    using assms by auto
  show ?thesis
    unfolding responsiveOptions_def overlay_spec_def matching_overrides_def keys
    by (rule fold_responsive_step [OF look])
qed

lemma spread_idem: "spread (spread opts ov) ov = spread opts ov"
  by (simp add: spread_def split: option.splits)

lemma smallest_is_last:
  fixes xs :: "(rat \<times> 'b) list"
  assumes "sorted (map (\<lambda>(k, ov). - k) xs)"
    and "distinct (map fst xs)"
    and "(k, ov) \<in> set xs"
    and "\<forall>p \<in> set xs. k \<le> fst p"
  shows "\<exists>ys. xs = ys @ [(k, ov)]"
proof (cases xs rule: rev_cases)
  case Nil
  with assms(3) show ?thesis by simp
next
  case (snoc ys l)
  have le: "\<forall>y \<in> set ys. fst l \<le> fst y"
    using assms(1) by (auto simp add: snoc sorted_append case_prod_beta)
  have "l = (k, ov)"
  proof (rule ccontr)
    assume ne: "l \<noteq> (k, ov)"
    with assms(3) snoc have in_ys: "(k, ov) \<in> set ys"
      by auto
    with le have "fst l \<le> k"
      by fastforce
    moreover from assms(4) snoc have "k \<le> fst l"
      by simp
    ultimately have "fst l = k"
      by simp
    moreover from in_ys have "k \<in> fst ` set ys"
      by force
    ultimately show False
      using assms(2) by (simp add: snoc)
  qed
  with snoc show ?thesis by simp
qed

lemma smallest_matching_wins:
  assumes d: "distinct (map fst (breakpoints base))"
    and mem: "(k, ov) \<in> set (breakpoints base)"
    and w: "width \<le> k"
    and least: "\<forall>(k', ov') \<in> set (breakpoints base). width \<le> k' \<longrightarrow> k \<le> k'"
  shows "spread (responsiveOptions width base) ov = responsiveOptions width base"
proof -
  let ?ms = "matching_overrides width base"
  have s: "sorted (map (\<lambda>(k, ov). - k) ?ms)"
    unfolding matching_overrides_def
    by (simp add: sorted_filter)
  have dd: "distinct (map fst ?ms)"
    unfolding matching_overrides_def
    using d by (simp add: distinct_map_filter map_fst_sort_key)
  have m: "(k, ov) \<in> set ?ms"
    using mem w by (simp add: matching_overrides_def)
  have l: "\<forall>p \<in> set ?ms. k \<le> fst p"
    using least by (auto simp add: matching_overrides_def)
  from smallest_is_last [OF s dd m l] obtain ys where ys: "?ms = ys @ [(k, ov)]"
    by blast
  have "responsiveOptions width base = spread (foldl spread base (map snd ys)) ov"
    using responsiveOptions_overlay_spec [OF d, of width] by (simp add: overlay_spec_def ys)
  then show ?thesis
    by (simp add: spread_idem)
qed

text \<open>
  C6.  The keys of a \<open>breakpoints\<close> object are distinct.  Then, for every window
  width, \<open>getResponsiveOptions\<close> returns the base options overlaid by the overrides
  whose key is at least the width, in descending key order (\<open>overlay_spec\<close>).  The
  smallest matching breakpoint wins: every key its override sets has that value in the
  result, so spreading it once more changes nothing.  With the example configuration
  a width of 700 gives three slides per view, and a width of 500 gives \<open>6/5\<close>, that is
  \<open>1.2\<close>, with a gap of 16.
\<close>

theorem responsive_resolution:
  assumes "distinct (map fst (breakpoints (options s)))"
  shows "getResponsiveOptions s = overlay_spec (innerWidth s) (options s)
       \<and> (\<forall>k ov. (k, ov) \<in> set (breakpoints (options s)) \<and> innerWidth s \<le> k
              \<and> (\<forall>(k', ov') \<in> set (breakpoints (options s)). innerWidth s \<le> k' \<longrightarrow> k \<le> k')
            \<longrightarrow> spread (getResponsiveOptions s) ov = getResponsiveOptions s)
       \<and> (options s = spread_user default_options example_options \<longrightarrow>
            (innerWidth s = 700 \<longrightarrow> slidesPerView (getResponsiveOptions s) = 3)
            \<and> (innerWidth s = 500 \<longrightarrow>
                 slidesPerView (getResponsiveOptions s) = 6 / 5
                 \<and> gap (getResponsiveOptions s) = 16))"
proof -
  have 1: "getResponsiveOptions s = overlay_spec (innerWidth s) (options s)"
    unfolding getResponsiveOptions_def using assms by (rule responsiveOptions_overlay_spec)
  have 2: "spread (getResponsiveOptions s) ov = getResponsiveOptions s"
    if "(k, ov) \<in> set (breakpoints (options s))" "innerWidth s \<le> k"
      "\<forall>(k', ov') \<in> set (breakpoints (options s)). innerWidth s \<le> k' \<longrightarrow> k \<le> k'"
    for k ov
    unfolding getResponsiveOptions_def using assms that by (rule smallest_matching_wins)
  have 3: "options s = spread_user default_options example_options \<longrightarrow>
            (innerWidth s = 700 \<longrightarrow> slidesPerView (getResponsiveOptions s) = 3)
            \<and> (innerWidth s = 500 \<longrightarrow>
                 slidesPerView (getResponsiveOptions s) = 6 / 5
                 \<and> gap (getResponsiveOptions s) = 16)"
    by (simp add: getResponsiveOptions_def example_effective)
  from 1 2 3 show ?thesis
    by blast
qed

theorem responsive_resolution_witness:
  "distinct (map fst (breakpoints (options carousel10_mobile)))
   \<and> innerWidth carousel10_mobile = 500
   \<and> slidesPerView (getResponsiveOptions carousel10_mobile) = 6 / 5
   \<and> gap (getResponsiveOptions carousel10_mobile) = 16
   \<and> slidesPerView (overlay_spec 500 (options carousel10_mobile)) = 6 / 5
   \<and> slidesPerView (getResponsiveOptions (carousel10_mobile\<lparr>innerWidth := 700\<rparr>)) = 3
   \<and> slidesPerView (overlay_spec 700 (options carousel10_mobile)) = 3"
proof -
  let ?m = "carousel10_mobile"
  let ?t = "carousel10_mobile\<lparr>innerWidth := 700\<rparr>"
  have b: "breakpoints (options ?m)
             = [(1200, \<lparr>ov_slidesPerView = Some 3, ov_gap = None, ov_autoplay = None,
                         ov_autoplaySpeed = None, ov_infinite = None\<rparr>),
                (600, \<lparr>ov_slidesPerView = Some (6 / 5), ov_gap = Some 16, ov_autoplay = None,
                        ov_autoplaySpeed = None, ov_infinite = None\<rparr>)]"
    by (simp add: carousel10_mobile_fields spread_user_def example_options_def)
  have d: "distinct (map fst (breakpoints (options ?m)))"
    by (simp add: b)
  have d': "distinct (map fst (breakpoints (options ?t)))"
    by (simp add: b)
  have o: "options ?m = spread_user default_options example_options"
    "options ?t = spread_user default_options example_options"
    by (simp_all add: carousel10_mobile_fields)
  have i: "innerWidth ?m = 500" "innerWidth ?t = 700"
    by (simp_all add: carousel10_mobile_fields)
  note t = responsive_resolution [OF d]
  note t' = responsive_resolution [OF d']
  from t have e: "getResponsiveOptions ?m = overlay_spec (innerWidth ?m) (options ?m)"
    by (rule conjunct1)
  from t' have e': "getResponsiveOptions ?t = overlay_spec (innerWidth ?t) (options ?t)"
    by (rule conjunct1)
  from t o(1) i(1) have v: "slidesPerView (getResponsiveOptions ?m) = 6 / 5
      \<and> gap (getResponsiveOptions ?m) = 16"
    by blast
  from t' o(2) i(2) have v': "slidesPerView (getResponsiveOptions ?t) = 3"
    by blast
  have w: "slidesPerView (overlay_spec 500 (options ?m)) = 6 / 5"
    using v unfolding e i(1) by (rule conjunct1)
  have w': "slidesPerView (overlay_spec 700 (options ?m)) = 3"
    using v' unfolding e' i(2) by simp
  from d i(1) v w v' w' show ?thesis
    by blast
qed

end
